theory Spec2Isabelle
  imports Main "HOL-Library.Word"
begin

unbundle bit_operations_syntax

section \<open>Machine types, errors and SIMD vectors\<close>

type_synonym u8 = "8 word"
type_synonym u32 = "32 word"
type_synonym u64 = "64 word"

text \<open>
  Every \<^verbatim>\<open>throw\<close> of the two headers is a constructor. \<open>InvalidAccess\<close> stands for
  a read or write outside the storage of a \<^verbatim>\<open>std::vector\<close> (undefined behaviour in
  C++, made visible here).
\<close>

datatype error =
    Oversize          \<comment> \<open>\<^verbatim>\<open>runtime_error("Attempting to make a table that's too large...")\<close>\<close>
  | DifferentSize     \<comment> \<open>\<^verbatim>\<open>runtime_error("Can't compare different-sized bloom filters.")\<close>\<close>
  | TooManySeeds      \<comment> \<open>\<^verbatim>\<open>runtime_error("Error: serialization only allows up to 255 seeds...")\<close>\<close>
  | ShapeMismatch     \<comment> \<open>\<^verbatim>\<open>invalid_argument("Item has wrong size: ...")\<close>\<close>
  | OutOfRange        \<comment> \<open>\<^verbatim>\<open>std::out_of_range\<close> thrown by \<^verbatim>\<open>vector::at\<close>\<close>
  | InvalidAccess     \<comment> \<open>access outside a vector's storage\<close>

text \<open>
  \<^verbatim>\<open>Space::VType\<close> is a SIMD register of \<^verbatim>\<open>Space::COUNT\<close> 64-bit lanes. The type
  lives in a header that is not part of the sources at hand, so the lane count is the
  parameter \<open>cnt\<close> of every function that uses vectors (2 for SSE2, 4 for AVX2, 8 for
  AVX-512), and a register is the list of its lanes.
\<close>

type_synonym VType = "u64 list"

text \<open>
  \<^verbatim>\<open>*ptr\<close> for a \<^verbatim>\<open>VType\<close> pointer that sits \<open>off\<close> words into the array \<open>xs\<close>:
  the \<open>cnt\<close> words from \<open>off\<close> on, which must all lie inside the array.
\<close>

definition load :: "nat \<Rightarrow> u64 list \<Rightarrow> nat \<Rightarrow> error + VType" where
  "load cnt xs off =
     (if 0 < cnt \<and> off + cnt \<le> length xs then Inr (take cnt (drop off xs))
      else Inl InvalidAccess)"

text \<open>\<^verbatim>\<open>*ptr = v\<close> for such a pointer.\<close>

definition store :: "nat \<Rightarrow> u64 list \<Rightarrow> nat \<Rightarrow> VType \<Rightarrow> error + u64 list" where
  "store cnt xs off v =
     (if 0 < cnt \<and> off + cnt \<le> length xs then Inr (take off xs @ take cnt v @ drop (off + cnt) xs)
      else Inl InvalidAccess)"

definition Space_set1 :: "nat \<Rightarrow> u64 \<Rightarrow> VType" where
  "Space_set1 cnt x = replicate cnt x"

definition Space_add :: "VType \<Rightarrow> VType \<Rightarrow> VType" where
  "Space_add a b = map2 (+) a b"

definition Space_and_fn :: "VType \<Rightarrow> VType \<Rightarrow> VType" where
  "Space_and_fn a b = map2 (AND) a b"

definition Space_or_fn :: "VType \<Rightarrow> VType \<Rightarrow> VType" where
  "Space_or_fn a b = map2 (OR) a b"

text \<open>
  Modelled from the spec: \<^verbatim>\<open>popcount\<close> of a 64-bit word (the helper is declared in
  the absent \<^verbatim>\<open>common.h\<close>) is the number of its set bits.
\<close>

definition popcount :: "u64 \<Rightarrow> nat" where
  "popcount w = length (filter (bit w) [0..<64])"

text \<open>\<^verbatim>\<open>popcnt_fn\<close> counts lane by lane; \<^verbatim>\<open>sum_of_u64s\<close> adds the lanes up.\<close>

definition popcnt_fn :: "VType \<Rightarrow> VType" where
  "popcnt_fn v = map (\<lambda>w. of_nat (popcount w)) v"

definition sum_of_u64s :: "VType \<Rightarrow> u64" where
  "sum_of_u64s v = sum_list v"

text \<open>Running a macro body \<open>n\<close> times (\<^verbatim>\<open>REPEAT_7\<close>, \<^verbatim>\<open>REPEAT_8\<close>), stopping at a failure.\<close>

primrec REPEAT :: "nat \<Rightarrow> ('s \<Rightarrow> error + 's) \<Rightarrow> 's \<Rightarrow> error + 's" where
  "REPEAT 0 body s = Inr s"
| "REPEAT (Suc n) body s = (case body s of Inl e \<Rightarrow> Inl e | Inr s' \<Rightarrow> REPEAT n body s')"

section \<open>The Bloom filter \<^verbatim>\<open>bfbase_t\<close> (sketch/bf.h)\<close>

text \<open>
  The attributes of the class. \<open>hf\<close> is the object representation of the hash functor
  (\<^verbatim>\<open>sizeof(hf_)\<close> bytes), which is what \<^verbatim>\<open>write\<close> and \<^verbatim>\<open>read\<close> move.
\<close>

record bfbase_t =
  np :: u8
  nh :: u8
  hf :: "u8 list"
  core :: "u64 list"
  seeds :: "u64 list"
  seedseed :: u64
  mask' :: u64

definition OFFSET :: nat where
  "OFFSET = 6"

text \<open>\<^verbatim>\<open>m()\<close> is \<^verbatim>\<open>core_.size() << OFFSET\<close>, \<^verbatim>\<open>p()\<close> is \<^verbatim>\<open>np_ + OFFSET\<close>.\<close>

definition bf_m :: "bfbase_t \<Rightarrow> u64" where
  "bf_m this = push_bit OFFSET (of_nat (length (core this)))"

definition bf_p :: "bfbase_t \<Rightarrow> nat" where
  "bf_p this = unat (np this) + OFFSET"

subsection \<open>\<^verbatim>\<open>popcnt\<close>\<close>

text \<open>
  The first register is read before the loop tests anything; the loop then runs while
  the read pointer is below \<^verbatim>\<open>&core_[core_.size()]\<close>.
\<close>

function popcnt_loop :: "nat \<Rightarrow> u64 list \<Rightarrow> nat \<Rightarrow> VType \<Rightarrow> error + VType" where
  "popcnt_loop cnt c off acc =
     (if off < length c then
        (case load cnt c off of
           Inl e \<Rightarrow> Inl e
         | Inr v \<Rightarrow> popcnt_loop cnt c (off + cnt) (Space_add acc (popcnt_fn v)))
      else Inr acc)"
  by pat_completeness auto
termination
  by (relation "measure (\<lambda>(cnt, c, off, acc). length c - off)")
     (auto simp: load_def split: if_splits)

definition popcnt :: "nat \<Rightarrow> bfbase_t \<Rightarrow> error + u64" where
  "popcnt cnt this =
     (case load cnt (core this) 0 of
        Inl e \<Rightarrow> Inl e
      | Inr v \<Rightarrow>
          (case popcnt_loop cnt (core this) cnt (popcnt_fn v) of
             Inl e \<Rightarrow> Inl e
           | Inr acc \<Rightarrow> Inr (sum_of_u64s acc)))"

subsection \<open>\<^verbatim>\<open>halve\<close>\<close>

text \<open>
  The scalar loop of the branch \<^verbatim>\<open>np_ < 17\<close>: \<open>it\<close> starts at 0, \<open>hit\<close> at
  \<^verbatim>\<open>core_.size() >> 1\<close>, and \<^verbatim>\<open>*it++ |= *hit++\<close> runs until \<open>hit\<close> reaches the end.
  \<open>hit\<close> starts at or below the end and moves by one, so \<^verbatim>\<open>hit != eit\<close> is \<open>hit < length c\<close>.
\<close>

function halve_scalar :: "u64 list \<Rightarrow> nat \<Rightarrow> nat \<Rightarrow> u64 list" where
  "halve_scalar c it hit =
     (if hit < length c then halve_scalar (c[it := c ! it OR c ! hit]) (it + 1) (hit + 1)
      else c)"
  by pat_completeness auto
termination
  by (relation "measure (\<lambda>(c, it, hit). length c - hit)") auto

text \<open>
  The vector loop of the other branch: \<^verbatim>\<open>while(hp != end) {*s = or_fn(*s, *hp); ++s, ++hp;}\<close>.
\<close>

function halve_simd :: "nat \<Rightarrow> u64 list \<Rightarrow> nat \<Rightarrow> nat \<Rightarrow> error + u64 list" where
  "halve_simd cnt c s hp =
     (if hp \<noteq> length c then
        (case load cnt c s of
           Inl e \<Rightarrow> Inl e
         | Inr a \<Rightarrow>
             (case load cnt c hp of
                Inl e \<Rightarrow> Inl e
              | Inr b \<Rightarrow>
                  (case store cnt c s (Space_or_fn a b) of
                     Inl e \<Rightarrow> Inl e
                   | Inr c' \<Rightarrow> halve_simd cnt c' (s + cnt) (hp + cnt))))
      else Inr c)"
  by pat_completeness auto
termination
  by (relation "measure (\<lambda>(cnt, c, s, hp). length c - hp)")
     (auto simp: load_def store_def split: if_splits)

text \<open>
  \<^verbatim>\<open>halve\<close> itself. The first branch ends in \<^verbatim>\<open>return\<close>; only the second one
  reaches \<^verbatim>\<open>core_.resize(core_.size()>>1)\<close>. Neither writes \<^verbatim>\<open>np_\<close>, \<^verbatim>\<open>mask_\<close> or
  \<^verbatim>\<open>seeds_\<close>.
\<close>

definition halve :: "nat \<Rightarrow> bfbase_t \<Rightarrow> error + bfbase_t" where
  "halve cnt this =
     (if np this < 17 then
        Inr (this\<lparr>core := halve_scalar (core this) 0 (length (core this) div 2)\<rparr>)
      else
        (case halve_simd cnt (core this) 0 (length (core this) div 2) of
           Inl e \<Rightarrow> Inl e
         | Inr c \<Rightarrow> Inr (this\<lparr>core := take (length c div 2) c\<rparr>)))"

subsection \<open>\<^verbatim>\<open>intersection_count\<close>, \<^verbatim>\<open>setbit_jaccard_index\<close>, \<^verbatim>\<open>jaccard_index\<close>\<close>

text \<open>
  The two read pointers \<open>op\<close> (into \<^verbatim>\<open>other.core_\<close>) and \<open>tc\<close> (into \<^verbatim>\<open>core_\<close>)
  always advance together, so one offset \<open>off\<close> stands for both. The loop state of
  \<^verbatim>\<open>intersection_count\<close> is the offset and the running register \<open>sum\<close> (here \<open>acc\<close>); one
  \<^verbatim>\<open>PERFORM_ITER\<close> of that function is \<open>and_iter\<close>.
\<close>

definition and_iter :: "nat \<Rightarrow> u64 list \<Rightarrow> u64 list \<Rightarrow> nat \<times> VType \<Rightarrow> error + nat \<times> VType" where
  "and_iter cnt oc tc s =
     (case s of (off, acc) \<Rightarrow>
        (case load cnt oc off of
           Inl e \<Rightarrow> Inl e
         | Inr a \<Rightarrow>
             (case load cnt tc off of
                Inl e \<Rightarrow> Inl e
              | Inr b \<Rightarrow> Inr (off + cnt, Space_add acc (popcnt_fn (Space_and_fn a b))))))"

text \<open>The unrolled part shared by the three functions: 7 iterations, then 8 for every further block.\<close>

definition unrolled :: "nat \<Rightarrow> nat \<Rightarrow> ('s \<Rightarrow> error + 's) \<Rightarrow> 's \<Rightarrow> error + 's" where
  "unrolled cnt sz body s =
     (if sz div cnt \<ge> 8 then
        (case REPEAT 7 body s of
           Inl e \<Rightarrow> Inl e
         | Inr s' \<Rightarrow> REPEAT (8 * (sz div cnt div 8 - 1)) body s')
      else Inr s)"

function and_tail :: "nat \<Rightarrow> u64 list \<Rightarrow> u64 list \<Rightarrow> nat \<times> VType \<Rightarrow> error + nat \<times> VType" where
  "and_tail cnt oc tc s =
     (if fst s < length oc then
        (case and_iter cnt oc tc s of Inl e \<Rightarrow> Inl e | Inr s' \<Rightarrow> and_tail cnt oc tc s')
      else Inr s)"
  by pat_completeness auto
termination
  by (relation "measure (\<lambda>(cnt, oc, tc, s). length oc - fst s)")
     (auto simp: and_iter_def load_def split: if_splits prod.splits sum.splits)

text \<open>The result is \<^verbatim>\<open>unsigned\<close>: the 64-bit total is cut to 32 bits on return.\<close>

definition intersection_count :: "nat \<Rightarrow> bfbase_t \<Rightarrow> bfbase_t \<Rightarrow> error + u32" where
  "intersection_count cnt this other =
     (if bf_m other \<noteq> bf_m this then Inl DifferentSize
      else
        (case and_iter cnt (core other) (core this) (0, Space_set1 cnt 0) of
           Inl e \<Rightarrow> Inl e
         | Inr s0 \<Rightarrow>
             (case unrolled cnt (length (core this)) (and_iter cnt (core other) (core this)) s0 of
                Inl e \<Rightarrow> Inl e
              | Inr s1 \<Rightarrow>
                  (case and_tail cnt (core other) (core this) s1 of
                     Inl e \<Rightarrow> Inl e
                   | Inr s2 \<Rightarrow> Inr (ucast (sum_of_u64s (snd s2)))))))"

text \<open>
  The loop state of the two Jaccard functions: the offset, the last registers read
  (\<open>l1\<close> from \<^verbatim>\<open>other\<close>, \<open>l2\<close> from \<^verbatim>\<open>this\<close>) and the three accumulators.
\<close>

record jstate =
  pos :: nat
  l1 :: VType
  l2 :: VType
  sum1 :: VType
  sum2 :: VType
  sumu :: VType

text \<open>
  \<^verbatim>\<open>PERFORM_ITER\<close> as both functions use it. Its last line is
  \<^verbatim>\<open>sum2 = Space::add(sumu, popcnt_fn(tmp));\<close>: it assigns to \<open>sum2\<close>, and nothing
  assigns to \<open>sumu\<close>.
\<close>

definition PERFORM_ITER :: "nat \<Rightarrow> u64 list \<Rightarrow> u64 list \<Rightarrow> jstate \<Rightarrow> error + jstate" where
  "PERFORM_ITER cnt oc tc s =
     (case load cnt oc (pos s) of
        Inl e \<Rightarrow> Inl e
      | Inr a \<Rightarrow>
          (case load cnt tc (pos s) of
             Inl e \<Rightarrow> Inl e
           | Inr b \<Rightarrow>
               (let s1 = s\<lparr>pos := pos s + cnt, l1 := a, l2 := b\<rparr>;
                    s2 = s1\<lparr>sum1 := Space_add (sum1 s1) (popcnt_fn (l1 s1))\<rparr>;
                    s3 = s2\<lparr>sum2 := Space_add (sum2 s2) (popcnt_fn (l2 s2))\<rparr>;
                    tmp = Space_or_fn (l1 s3) (l2 s3)
                in Inr (s3\<lparr>sum2 := Space_add (sumu s3) (popcnt_fn tmp)\<rparr>))))"

function jaccard_tail :: "nat \<Rightarrow> u64 list \<Rightarrow> u64 list \<Rightarrow> jstate \<Rightarrow> error + jstate" where
  "jaccard_tail cnt oc tc s =
     (if pos s < length oc then
        (case PERFORM_ITER cnt oc tc s of Inl e \<Rightarrow> Inl e | Inr s' \<Rightarrow> jaccard_tail cnt oc tc s')
      else Inr s)"
  by pat_completeness auto
termination
  by (relation "measure (\<lambda>(cnt, oc, tc, s). length oc - pos s)")
     (auto simp: PERFORM_ITER_def load_def Let_def split: if_splits sum.splits)

text \<open>
  What both functions do up to their last statement: the size check, the first pair of
  registers (read and then overwritten by the first \<^verbatim>\<open>PERFORM_ITER\<close>), the unrolled
  loop, the tail loop, and the three lane sums \<open>(usum1, usum2, usumu)\<close>.
\<close>

definition jaccard_sums :: "nat \<Rightarrow> bfbase_t \<Rightarrow> bfbase_t \<Rightarrow> error + u64 \<times> u64 \<times> u64" where
  "jaccard_sums cnt this other =
     (if bf_m other \<noteq> bf_m this then Inl DifferentSize
      else
        (case load cnt (core other) 0 of
           Inl e \<Rightarrow> Inl e
         | Inr a \<Rightarrow>
             (case load cnt (core this) 0 of
                Inl e \<Rightarrow> Inl e
              | Inr b \<Rightarrow>
                  (let z = Space_set1 cnt 0;
                       s0 = \<lparr>pos = cnt, l1 = a, l2 = b, sum1 = z, sum2 = z, sumu = z\<rparr>
                   in case unrolled cnt (length (core this))
                             (PERFORM_ITER cnt (core other) (core this)) s0 of
                        Inl e \<Rightarrow> Inl e
                      | Inr s1 \<Rightarrow>
                          (case jaccard_tail cnt (core other) (core this) s1 of
                             Inl e \<Rightarrow> Inl e
                           | Inr s2 \<Rightarrow>
                               Inr (sum_of_u64s (sum1 s2), sum_of_u64s (sum2 s2),
                                    sum_of_u64s (sumu s2)))))))"

text \<open>
  \<^verbatim>\<open>setbit_jaccard_index\<close> returns the double
  \<^verbatim>\<open>static_cast<double>(usum1 + usum2 - usumu) / usumu\<close>. Floating point is not
  modelled: the function returns the pair (numerator, denominator) of that division,
  both 64-bit unsigned as in the source.
\<close>

definition setbit_jaccard_index :: "nat \<Rightarrow> bfbase_t \<Rightarrow> bfbase_t \<Rightarrow> error + u64 \<times> u64" where
  "setbit_jaccard_index cnt this other =
     (case jaccard_sums cnt this other of
        Inl e \<Rightarrow> Inl e
      | Inr (usum1, usum2, usumu) \<Rightarrow> Inr (usum1 + usum2 - usumu, usumu))"

text \<open>
  \<^verbatim>\<open>jaccard_index\<close> feeds the three sums into logarithms of doubles. The model stops
  before that arithmetic and returns the sums.
\<close>

definition jaccard_index :: "nat \<Rightarrow> bfbase_t \<Rightarrow> bfbase_t \<Rightarrow> error + u64 \<times> u64 \<times> u64" where
  "jaccard_index cnt this other = jaccard_sums cnt this other"

subsection \<open>Copy assignment and \<^verbatim>\<open>same_params\<close>\<close>

text \<open>
  \<^verbatim>\<open>core_ = other.core_; np_ = other.np_; nh_ = other.nh_; seedseed_ = other.seedseed_;\<close>
\<close>

definition assign :: "bfbase_t \<Rightarrow> bfbase_t \<Rightarrow> bfbase_t" where
  "assign this other =
     this\<lparr>core := core other, np := np other, nh := nh other, seedseed := seedseed other\<rparr>"

definition same_params :: "bfbase_t \<Rightarrow> bfbase_t \<Rightarrow> bool" where
  "same_params this other =
     ((np this, nh this, seedseed this) = (np other, nh other, seedseed other))"

subsection \<open>\<^verbatim>\<open>reseed\<close>, \<^verbatim>\<open>clear\<close>, \<^verbatim>\<open>resize\<close> and the constructor\<close>

text \<open>
  Modelled from the spec: the table \<^verbatim>\<open>lut::nhashesper64bitword\<close> is declared in the
  absent \<^verbatim>\<open>common.h\<close>; the spec gives its entries as
  \<open>nhashesper64bitword(p) = floor(64 / p)\<close>.
\<close>

definition nhashesper64bitword :: "nat \<Rightarrow> nat" where
  "nhashesper64bitword p = 64 div p"

text \<open>
  Modelled from the spec: \<^verbatim>\<open>roundup\<close> and \<^verbatim>\<open>ilog2\<close> are declared in the absent
  integral header. \<open>resize\<close> "rounds \<open>new_m\<close> up to next power of two"; \<open>ilog2\<close> is the
  position of the highest set bit. The round-up wraps to 0 beyond \<open>2 ^ 63\<close>, as every
  64-bit computation of it does.
\<close>

fun roundup_nat :: "nat \<Rightarrow> nat" where
  "roundup_nat x = (if x \<le> 1 then 1 else 2 * roundup_nat ((x + 1) div 2))"

declare roundup_nat.simps [simp del]

definition roundup :: "u64 \<Rightarrow> u64" where
  "roundup x = of_nat (roundup_nat (unat x))"

fun ilog2_nat :: "nat \<Rightarrow> nat" where
  "ilog2_nat x = (if x < 2 then 0 else Suc (ilog2_nat (x div 2)))"

declare ilog2_nat.simps [simp del]

definition ilog2 :: "u64 \<Rightarrow> nat" where
  "ilog2 x = ilog2_nat (unat x)"

text \<open>
  \<^verbatim>\<open>std::mt19937_64\<close> is the standard library's generator: \<open>gen k\<close> is the \<open>k\<close>-th
  value that the generator constructed from the seed emits. The loop of \<^verbatim>\<open>reseed\<close>
  draws until \<^verbatim>\<open>seeds_.size() * nperhash64 >= nh_\<close> and keeps a value only if it is
  not among the seeds yet. It need not end (a generator that repeats itself, or
  \<open>nperhash64 = 0\<close>), so the result is an option: \<open>None\<close> is a loop that runs forever.
\<close>

partial_function (option) reseed_loop ::
  "(nat \<Rightarrow> u64) \<Rightarrow> nat \<Rightarrow> nat \<Rightarrow> nat \<Rightarrow> u64 list \<Rightarrow> u64 list option" where
  "reseed_loop gen nperhash64 nhv k sds =
     (if length sds * nperhash64 < nhv then
        reseed_loop gen nperhash64 nhv (k + 1) (if gen k \<in> set sds then sds else sds @ [gen k])
      else Some sds)"

declare reseed_loop.simps [code]

definition reseed :: "(u64 \<Rightarrow> nat \<Rightarrow> u64) \<Rightarrow> u64 \<Rightarrow> bfbase_t \<Rightarrow> bfbase_t option" where
  "reseed mt sseed this =
     (let sseed' = (if sseed = 0 then seedseed this else sseed) in
      case reseed_loop (mt sseed') (nhashesper64bitword (bf_p this)) (unat (nh this)) 0
             (seeds this) of
        None \<Rightarrow> None
      | Some sds \<Rightarrow> Some (this\<lparr>seeds := sds\<rparr>))"

text \<open>
  \<^verbatim>\<open>clear\<close> has three branches: \<^verbatim>\<open>memset\<close> from \<open>MEMSET_CUTOFF\<close> words on; vector stores
  when the array is at least one register long; \<^verbatim>\<open>std::fill\<close> otherwise. The vector
  branch writes eight registers at a time while more than eight remain
  (\<^verbatim>\<open>while(p2 - p1 > 8)\<close>; the eight stores are inside the array by the loop test), then
  one register at a time while \<^verbatim>\<open>p1 < p2\<close>.
\<close>

definition MEMSET_CUTOFF :: nat where
  "MEMSET_CUTOFF = 2 ^ 16"

definition zero8 :: "nat \<Rightarrow> u64 list \<Rightarrow> nat \<Rightarrow> u64 list" where
  "zero8 cnt c p1 = take p1 c @ replicate (8 * cnt) 0 @ drop (p1 + 8 * cnt) c"

function clear_blocks :: "nat \<Rightarrow> u64 list \<Rightarrow> nat \<Rightarrow> u64 list \<times> nat" where
  "clear_blocks cnt c p1 =
     (if 8 < (length c - p1) div cnt then clear_blocks cnt (zero8 cnt c p1) (p1 + 8 * cnt)
      else (c, p1))"
  by pat_completeness auto
termination
proof (relation "measure (\<lambda>(cnt, c, p1). length c - p1)", goal_cases)
  case 1
  show ?case by simp
next
  case (2 cnt c p1)
  then have pos: "0 < cnt"
    by (cases cnt) auto
  from 2 have "9 \<le> (length c - p1) div cnt"
    by simp
  then have "9 * cnt \<le> length c - p1"
    using pos by (simp add: less_eq_div_iff_mult_less_eq)
  then show ?case
    using pos by (simp add: zero8_def)
qed

function clear_tail :: "nat \<Rightarrow> u64 list \<Rightarrow> nat \<Rightarrow> error + u64 list" where
  "clear_tail cnt c p1 =
     (if p1 < length c then
        (case store cnt c p1 (Space_set1 cnt 0) of
           Inl e \<Rightarrow> Inl e
         | Inr c' \<Rightarrow> clear_tail cnt c' (p1 + cnt))
      else Inr c)"
  by pat_completeness auto
termination
  by (relation "measure (\<lambda>(cnt, c, p1). length c - p1)")
     (auto simp: store_def Space_set1_def split: if_splits)

definition clear :: "nat \<Rightarrow> bfbase_t \<Rightarrow> error + bfbase_t" where
  "clear cnt this =
     (let c = core this in
      if length c \<ge> MEMSET_CUTOFF then Inr (this\<lparr>core := replicate (length c) 0\<rparr>)
      else if length c * 8 \<ge> cnt * 8 then
        (case clear_blocks cnt c 0 of
           (c1, p1) \<Rightarrow>
             (case clear_tail cnt c1 p1 of
                Inl e \<Rightarrow> Inl e
              | Inr c2 \<Rightarrow> Inr (this\<lparr>core := c2\<rparr>)))
      else Inr (this\<lparr>core := replicate (length c) 0\<rparr>))"

text \<open>\<^verbatim>\<open>std::vector::resize(n)\<close>: cut to \<open>n\<close> elements or fill up with zeros.\<close>

definition vresize :: "nat \<Rightarrow> u64 list \<Rightarrow> u64 list" where
  "vresize n xs = take n xs @ replicate (n - length xs) 0"

text \<open>
  \<^verbatim>\<open>resize\<close>. The new \<^verbatim>\<open>np_\<close> is \<^verbatim>\<open>ilog2(new_size) - OFFSET\<close> cut to 8 bits. The
  function has no test of the size it is asked for; its one \<^verbatim>\<open>assert(np_ < 64)\<close> is
  compiled out under \<^verbatim>\<open>NDEBUG\<close>, the build modelled throughout.
\<close>

definition resize ::
  "nat \<Rightarrow> (u64 \<Rightarrow> nat \<Rightarrow> u64) \<Rightarrow> bfbase_t \<Rightarrow> u64 \<Rightarrow> (error + bfbase_t) option" where
  "resize cnt mt this new_size0 =
     (let new_size = roundup new_size0 in
      case clear cnt this of
        Inl e \<Rightarrow> Some (Inl e)
      | Inr t1 \<Rightarrow>
          (case clear cnt (t1\<lparr>core := vresize (unat (drop_bit OFFSET new_size)) (core t1)\<rparr>) of
             Inl e \<Rightarrow> Some (Inl e)
           | Inr t2 \<Rightarrow>
               (case reseed mt 0 (t2\<lparr>np := of_nat (ilog2 new_size) - of_nat OFFSET\<rparr>) of
                  None \<Rightarrow> None
                | Some t3 \<Rightarrow> Some (Inr (t3\<lparr>mask' := new_size - 1\<rparr>)))))"

text \<open>
  The constructor \<^verbatim>\<open>bfbase_t(size_t l2sz, unsigned nhashes, uint64_t seedval, Args...)\<close>.
  The member initialisers cut \<open>l2sz - OFFSET\<close> and \<open>nhashes\<close> to 8 bits; \<^verbatim>\<open>core_\<close> and
  \<^verbatim>\<open>seeds_\<close> start empty; \<^verbatim>\<open>mask_\<close> has no initialiser, so its first value \<open>mask0\<close> is
  whatever the memory holds. \<open>args\<close> is the state the functor is built with.
\<close>

definition bfbase_t_ctor ::
  "nat \<Rightarrow> (u64 \<Rightarrow> nat \<Rightarrow> u64) \<Rightarrow> u64 \<Rightarrow> u64 \<Rightarrow> u32 \<Rightarrow> u64 \<Rightarrow> u8 list \<Rightarrow>
     (error + bfbase_t) option" where
  "bfbase_t_ctor cnt mt mask0 l2sz nhashes seedval args =
     (let this = \<lparr>np = (if l2sz > of_nat OFFSET then ucast (l2sz - of_nat OFFSET) else 0),
                  nh = ucast nhashes, hf = args, core = [], seeds = [],
                  seedseed = seedval, mask' = mask0\<rparr>
      in if np this > 40 then Some (Inl Oversize)
         else if np this \<noteq> 0 then resize cnt mt this (push_bit (bf_p this) 1)
         else Some (Inr this))"

subsection \<open>\<^verbatim>\<open>write\<close> and \<^verbatim>\<open>read\<close>\<close>

text \<open>
  A \<^verbatim>\<open>gzFile\<close> is the sequence of (uncompressed) bytes of the stream: \<^verbatim>\<open>gzwrite\<close>
  appends a buffer to it and returns the buffer's length; \<^verbatim>\<open>gzread\<close> takes as many
  bytes off its front as the buffer is long, fewer at the end of the stream, and leaves
  the rest of the buffer as it was. The zlib layer itself is outside the sources; its
  failures (\<^verbatim>\<open>ZlibError\<close>) do not occur in this model.
\<close>

type_synonym gzFile = "u8 list"

definition gzwrite :: "gzFile \<Rightarrow> u8 list \<Rightarrow> gzFile \<times> nat" where
  "gzwrite fp buf = (fp @ buf, length buf)"

definition gzread :: "gzFile \<Rightarrow> u8 list \<Rightarrow> gzFile \<times> u8 list \<times> nat" where
  "gzread fp buf =
     (let got = take (length buf) fp
      in (drop (length buf) fp, got @ drop (length got) buf, length got))"

text \<open>The object representation of 64-bit words: eight bytes each, lowest byte first.\<close>

definition bytes_of_u64 :: "u64 \<Rightarrow> u8 list" where
  "bytes_of_u64 w = map (\<lambda>i. ucast (drop_bit (8 * i) w)) [0..<8]"

definition u64_of_bytes :: "u8 list \<Rightarrow> u64" where
  "u64_of_bytes bs = foldr (\<lambda>b w. push_bit 8 w OR ucast b) bs 0"

definition bytes_of_words :: "u64 list \<Rightarrow> u8 list" where
  "bytes_of_words ws = concat (map bytes_of_u64 ws)"

function words_of_bytes :: "u8 list \<Rightarrow> u64 list" where
  "words_of_bytes bs =
     (if length bs < 8 then [] else u64_of_bytes (take 8 bs) # words_of_bytes (drop 8 bs))"
  by pat_completeness auto
termination
  by (relation "measure length") auto

declare words_of_bytes.simps [simp del]

text \<open>
  \<^verbatim>\<open>write\<close> (\<open>bf_write\<close>, since \<open>write\<close> is a keyword of the proof language): the three header bytes, the functor, \<^verbatim>\<open>seedseed_\<close>, \<^verbatim>\<open>mask_\<close>, the
  seeds, the words. The result is the stream and the number of bytes written.
\<close>

definition bf_write :: "bfbase_t \<Rightarrow> gzFile \<Rightarrow> error + gzFile \<times> nat" where
  "bf_write this fp =
     (if length (seeds this) > 255 then Inl TooManySeeds
      else
        (let (fp1, rc1) = gzwrite fp [np this, nh this, of_nat (length (seeds this))];
             (fp2, rc2) = gzwrite fp1 (hf this);
             (fp3, rc3) = gzwrite fp2 (bytes_of_u64 (seedseed this));
             (fp4, rc4) = gzwrite fp3 (bytes_of_u64 (mask' this));
             (fp5, rc5) = gzwrite fp4 (bytes_of_words (seeds this));
             (fp6, rc6) = gzwrite fp5 (bytes_of_words (core this))
         in Inr (fp6, rc1 + rc2 + rc3 + rc4 + rc5 + rc6)))"

text \<open>
  \<^verbatim>\<open>read\<close> (\<open>bf_read\<close>): the three header bytes into \<^verbatim>\<open>arr\<close>; \<^verbatim>\<open>np_\<close>, \<^verbatim>\<open>nh_\<close> and
  \<^verbatim>\<open>seeds_.resize(arr[2])\<close>; then the functor, \<^verbatim>\<open>seedseed_\<close> and \<^verbatim>\<open>mask_\<close>; then
  \<^verbatim>\<open>if(np_) resize(1ull << p())\<close>; then \<^verbatim>\<open>core_.size()\<close> words into \<^verbatim>\<open>core_\<close>. There
  is no \<^verbatim>\<open>gzread\<close> into \<^verbatim>\<open>seeds_\<close>. A shift by 64 or more is undefined in C++ and is
  \<open>InvalidAccess\<close> here. The result is the filter, the rest of the stream and the number
  of bytes read.
\<close>

definition bf_read ::
  "nat \<Rightarrow> (u64 \<Rightarrow> nat \<Rightarrow> u64) \<Rightarrow> bfbase_t \<Rightarrow> gzFile \<Rightarrow> (error + bfbase_t \<times> gzFile \<times> nat) option" where
  "bf_read cnt mt this fp =
     (let (fp1, arr, ret1) = gzread fp [0, 0, 0];
          t1 = this\<lparr>np := arr ! 0, nh := arr ! 1, seeds := vresize (unat (arr ! 2)) (seeds this)\<rparr>;
          (fp2, hfb, ret2) = gzread fp1 (hf t1);
          (fp3, ssb, ret3) = gzread fp2 (bytes_of_u64 (seedseed t1));
          (fp4, mb, ret4) = gzread fp3 (bytes_of_u64 (mask' t1));
          t4 = t1\<lparr>hf := hfb, seedseed := u64_of_bytes ssb, mask' := u64_of_bytes mb\<rparr>
      in case (if np t4 \<noteq> 0 then
                 (if bf_p t4 < 64 then resize cnt mt t4 (push_bit (bf_p t4) 1)
                  else Some (Inl InvalidAccess))
               else Some (Inr t4)) of
           None \<Rightarrow> None
         | Some (Inl e) \<Rightarrow> Some (Inl e)
         | Some (Inr t5) \<Rightarrow>
             (let (fp6, cb, ret6) = gzread fp4 (bytes_of_words (core t5))
              in Some (Inr (t5\<lparr>core := words_of_bytes cb\<rparr>, fp6,
                            ret1 + ret2 + ret3 + ret4 + ret6))))"

section \<open>The LSH index \<^verbatim>\<open>SetSketchIndex\<close> (sketch/ssi.h)\<close>

text \<open>
  The template is taken at its defaults: keys are \<^verbatim>\<open>uint64_t\<close>, ids are \<^verbatim>\<open>uint32_t\<close>.
  A \<^verbatim>\<open>flat_hash_map<KeyT, std::vector<IdT>>\<close> is a map from keys to posting lists; a
  \<^verbatim>\<open>HashV\<close> is the vector of the maps of one table, one map per row. The sketch length
  \<^verbatim>\<open>m_\<close> and the sizes of vectors are natural numbers; \<^verbatim>\<open>total_ids_\<close> is a
  \<^verbatim>\<open>size_t\<close> that is cut to an id on every insertion, so it is a 64-bit word.
\<close>

type_synonym HashMap = "u64 \<rightharpoonup> u32 list"
type_synonym HashV = "HashMap list"

record SetSketchIndex =
  ssi_m :: nat
  packed_maps :: "HashV list"
  regs_per_reg :: "u64 list"
  total_ids :: u64

subsection \<open>\<^verbatim>\<open>hash_index\<close>\<close>

text \<open>
  \<^verbatim>\<open>_wymum\<close>: the 128-bit product of the two words, its upper half xor-ed onto its
  lower half. \<^verbatim>\<open>wyhash64_stateless\<close> advances the seed it points to and mixes it; the
  model returns the mix and the new seed.
\<close>

definition wymum :: "u64 \<Rightarrow> u64 \<Rightarrow> u64" where
  "wymum x y = (let l = unat x * unat y in of_nat l XOR of_nat (l div 2 ^ 64))"

definition wyhash64_stateless :: "u64 \<Rightarrow> u64 \<times> u64" where
  "wyhash64_stateless seed =
     (let seed' = seed + 0x60bee2bee120fc15
      in (wymum (seed' XOR 0xe7037ed1a0b428db) seed', seed'))"

text \<open>
  Modelled from the spec: \<^verbatim>\<open>schism::Schismatic<uint32_t>\<close> is declared in a header that
  is absent; the spec has the mixer output reduced "modulo \<open>m\<close> via a fast divisor".
\<close>

definition Schismatic_mod :: "nat \<Rightarrow> u64 \<Rightarrow> nat" where
  "Schismatic_mod m v = unat v mod m"

text \<open>
  The loop of the sampled mode: \<open>n\<close> rounds are left, \<open>fed\<close> are the registers given to
  \<^verbatim>\<open>XXH64_update\<close> so far. \<^verbatim>\<open>item[idx]\<close> is an unchecked read.
\<close>

fun sampled :: "nat \<Rightarrow> 'r list \<Rightarrow> nat \<Rightarrow> u64 \<Rightarrow> 'r list \<Rightarrow> error + 'r list" where
  "sampled m item 0 seed fed = Inr fed"
| "sampled m item (Suc n) seed fed =
     (case wyhash64_stateless seed of
        (v, seed') \<Rightarrow>
          (let idx = Schismatic_mod m v
           in if idx < length item then sampled m item n seed' (fed @ [item ! idx])
              else Inl InvalidAccess))"

text \<open>
  \<^verbatim>\<open>hash_index(item, i, j)\<close>. The two digests of the xxHash library are parameters:
  \<open>XXH3 rs\<close> is \<^verbatim>\<open>XXH3_64bits\<close> of the bytes of the registers \<open>rs\<close>, and \<open>XXH64 seed rs\<close>
  is the digest of a state that was reset with \<open>seed\<close> and updated with the registers
  \<open>rs\<close> one after the other. The products \<^verbatim>\<open>(j + 1) * nreg\<close> and \<^verbatim>\<open>nreg * j\<close> are
  \<^verbatim>\<open>size_t\<close> products and wrap around.
\<close>

definition hash_index ::
  "('r list \<Rightarrow> u64) \<Rightarrow> (u64 \<Rightarrow> 'r list \<Rightarrow> u64) \<Rightarrow> SetSketchIndex \<Rightarrow> 'r list \<Rightarrow> nat \<Rightarrow> nat \<Rightarrow>
     error + u64" where
  "hash_index XXH3 XXH64 this item i j =
     (if i < length (regs_per_reg this) then
        (let nreg = unat (regs_per_reg this ! i)
         in if nreg \<ge> 4 \<and> (j + 1) * nreg mod 2 ^ 64 \<le> ssi_m this then
              (let start = nreg * j mod 2 ^ 64
               in if start + nreg \<le> length item then Inr (XXH3 (take nreg (drop start item)))
                  else Inl InvalidAccess)
            else
              (let seed = push_bit 32 (of_nat i) OR of_nat j
               in case sampled (ssi_m this) item nreg seed [] of
                    Inl e \<Rightarrow> Inl e
                  | Inr fed \<Rightarrow> Inr (XXH64 seed fed)))
      else Inl OutOfRange)"

subsection \<open>\<^verbatim>\<open>update\<close>\<close>





subsection \<open>\<^verbatim>\<open>query_candidates\<close>\<close>

text \<open>
  The locals of the function. \<^verbatim>\<open>rset\<close> is a \<^verbatim>\<open>flat_hash_map<IdT, uint32_t>\<close>, kept
  here as the list of its entries in the order of their insertion.
\<close>

record qstate =
  rset :: "(u32 \<times> u32) list"
  passing_ids :: "u32 list"
  items_per_row :: "u32 list"

text \<open>The body of \<^verbatim>\<open>for(const auto id: it->second)\<close>.\<close>

definition hit_id :: "qstate \<Rightarrow> u32 \<Rightarrow> qstate" where
  "hit_id s ident =
     (case map_of (rset s) ident of
        None \<Rightarrow> s\<lparr>rset := rset s @ [(ident, 1)], passing_ids := passing_ids s @ [ident]\<rparr>
      | Some c \<Rightarrow> s\<lparr>rset := map (\<lambda>(k, v). if k = ident then (k, v + 1) else (k, v)) (rset s)\<rparr>)"

fun query_rows :: "(nat \<Rightarrow> error + u64) \<Rightarrow> HashV \<Rightarrow> nat list \<Rightarrow> qstate \<Rightarrow> error + qstate" where
  "query_rows h m [] s = Inr s"
| "query_rows h m (j # js) s =
     (case h j of
        Inl e \<Rightarrow> Inl e
      | Inr myhash \<Rightarrow>
          (case (m ! j) myhash of
             None \<Rightarrow> query_rows h m js s
           | Some ids \<Rightarrow> query_rows h m js (fold (\<lambda>ident s'. hit_id s' ident) ids s)))"

text \<open>
  The loop \<^verbatim>\<open>for(std::ptrdiff_t i = starting_idx; --i >= 0;)\<close>: with the counter at
  \<open>Suc i\<close> the table scanned is \<open>i\<close>. \<^verbatim>\<open>packed_maps_[i]\<close> is an unchecked read.
\<close>

fun query_tables ::
  "(nat \<Rightarrow> nat \<Rightarrow> error + u64) \<Rightarrow> HashV list \<Rightarrow> nat \<Rightarrow> nat \<Rightarrow> qstate \<Rightarrow> error + qstate" where
  "query_tables h maps maxcand 0 s = Inr s"
| "query_tables h maps maxcand (Suc i) s =
     (if i < length maps then
        (let items_before = length (passing_ids s)
         in case query_rows (h i) (maps ! i) [0..<length (maps ! i)] s of
              Inl e \<Rightarrow> Inl e
            | Inr s1 \<Rightarrow>
                (let s2 = s1\<lparr>items_per_row :=
                              items_per_row s1 @ [of_nat (length (passing_ids s1) - items_before)]\<rparr>
                 in if length (rset s2) \<ge> maxcand then Inr s2
                    else query_tables h maps maxcand i s2))
      else Inl InvalidAccess)"

text \<open>
  \<^verbatim>\<open>query_candidates(item, maxcand, starting_idx = size_t(-1))\<close>. The start index
  becomes a \<^verbatim>\<open>ptrdiff_t\<close>; a negative one runs no iteration.
\<close>

definition query_candidates ::
  "('r list \<Rightarrow> u64) \<Rightarrow> (u64 \<Rightarrow> 'r list \<Rightarrow> u64) \<Rightarrow> SetSketchIndex \<Rightarrow> 'r list \<Rightarrow> nat \<Rightarrow> u64 \<Rightarrow>
     error + u32 list \<times> u32 list" where
  "query_candidates XXH3 XXH64 this item maxcand starting_idx0 =
     (let starting_idx =
            (if starting_idx0 = - 1 then of_nat (length (regs_per_reg this)) else starting_idx0)
      in case query_tables (hash_index XXH3 XXH64 this item) (packed_maps this) maxcand
                (nat (sint starting_idx)) \<lparr>rset = [], passing_ids = [], items_per_row = []\<rparr> of
           Inl e \<Rightarrow> Inl e
         | Inr s \<Rightarrow> Inr (passing_ids s, items_per_row s))"

subsection \<open>What a scan meets\<close>

text \<open>
  The ids that \<^verbatim>\<open>query_candidates\<close> meets while it scans one row and one table: the
  posting list under the band key of the row (nothing if the key is absent), and the
  rows of a table one after the other. Repetitions are kept.
\<close>

definition row_hits :: "(nat \<Rightarrow> error + u64) \<Rightarrow> HashV \<Rightarrow> nat \<Rightarrow> u32 list" where
  "row_hits h m j =
     (case h j of
        Inl e \<Rightarrow> []
      | Inr myhash \<Rightarrow> (case (m ! j) myhash of None \<Rightarrow> [] | Some ids \<Rightarrow> ids))"

definition table_hits :: "(nat \<Rightarrow> error + u64) \<Rightarrow> HashV \<Rightarrow> u32 list" where
  "table_hits h m = concat (map (row_hits h m) [0..<length m])"

text \<open>
  The invariant of the loops of \<^verbatim>\<open>query_candidates\<close>: the keys of \<^verbatim>\<open>rset\<close>, in the
  order of their insertion, are the ids of \<^verbatim>\<open>passing_ids\<close>, and no id occurs twice.
\<close>

definition qinv :: "qstate \<Rightarrow> bool" where
  "qinv s \<longleftrightarrow> map fst (rset s) = passing_ids s \<and> distinct (passing_ids s)"

subsection \<open>The shape of an index\<close>

text \<open>
  What the constructors leave behind and \<^verbatim>\<open>update\<close> keeps: a positive sketch
  length, one entry of \<^verbatim>\<open>regs_per_reg_\<close> for each table, fewer than \<open>2 ^ 63\<close> tables
  (so that the table count fits a \<^verbatim>\<open>ptrdiff_t\<close>), and, for every table, a product of
  rows and registers per key that fits a \<^verbatim>\<open>size_t\<close>.
\<close>

definition wf_index :: "SetSketchIndex \<Rightarrow> bool" where
  "wf_index this \<longleftrightarrow>
     0 < ssi_m this \<and>
     length (regs_per_reg this) = length (packed_maps this) \<and>
     length (packed_maps this) < 2 ^ 63 \<and>
     list_all (\<lambda>i. length (packed_maps this ! i) * unat (regs_per_reg this ! i) < 2 ^ 64)
       [0..<length (packed_maps this)]"

section \<open>Properties of the Bloom filter\<close>

subsection \<open>Copy assignment\<close>

text \<open>
  C10. After the copy assignment \<open>F = G\<close>, the word array, \<open>np\<close>, \<open>nh\<close> and \<open>seedseed\<close> of
  \<open>F\<close> are those of \<open>G\<close>, while the seeds vector and the mask field of \<open>F\<close> are the ones
  \<open>F\<close> had before: the operator does not copy them.
\<close>

theorem assign_copies_core_params_only:
  "core (assign F G) = core G \<and> np (assign F G) = np G \<and> nh (assign F G) = nh G \<and>
   seedseed (assign F G) = seedseed G \<and>
   seeds (assign F G) = seeds F \<and> mask' (assign F G) = mask' F"
  by (simp add: assign_def)

subsection \<open>The size check of the comparison functions\<close>

definition filter_a :: bfbase_t where
  "filter_a = \<lparr>np = 1, nh = 1, hf = [0], core = [1, 3], seeds = [5], seedseed = 7, mask' = 127\<rparr>"

definition filter_b :: bfbase_t where
  "filter_b = \<lparr>np = 1, nh = 2, hf = [0], core = [1, 3], seeds = [5], seedseed = 9, mask' = 127\<rparr>"

definition filter_c :: bfbase_t where
  "filter_c = \<lparr>np = 2, nh = 1, hf = [0], core = [1, 3, 0, 0], seeds = [5], seedseed = 7,
                mask' = 255\<rparr>"

text \<open>
  C4, as stated, fails: \<open>filter_a\<close> and \<open>filter_b\<close> differ in \<open>nh\<close> and in \<open>seedseed\<close>, so
  \<open>same_params\<close> is false, and yet none of the three functions fails on them (two lanes
  per register).
\<close>

theorem comparison_ignores_nh_seedseed_counterexample:
  "\<not> same_params filter_a filter_b \<and>
   intersection_count 2 filter_a filter_b = Inr 3 \<and>
   jaccard_index 2 filter_a filter_b = Inr (0, 0, 0) \<and>
   setbit_jaccard_index 2 filter_a filter_b = Inr (0, 0)"
  by code_simp

text \<open>
  C4, amended. Each of \<open>intersection_count\<close>, \<open>jaccard_index\<close> and
  \<open>setbit_jaccard_index\<close> fails with the error "different-sized bloom filters" whenever
  the two filters differ in \<open>m()\<close>, the number of bits of their word arrays. That is the
  only comparison the three functions make.
\<close>

theorem comparison_rejects_different_m:
  "bf_m other \<noteq> bf_m this \<Longrightarrow>
     intersection_count cnt this other = Inl DifferentSize \<and>
     jaccard_index cnt this other = Inl DifferentSize \<and>
     setbit_jaccard_index cnt this other = Inl DifferentSize"
  by (simp add: intersection_count_def jaccard_index_def setbit_jaccard_index_def
      jaccard_sums_def)

theorem comparison_rejects_different_m_witness:
  "bf_m filter_c \<noteq> bf_m filter_a \<and>
   intersection_count 2 filter_a filter_c = Inl DifferentSize \<and>
   jaccard_index 2 filter_a filter_c = Inl DifferentSize \<and>
   setbit_jaccard_index 2 filter_a filter_c = Inl DifferentSize"
proof -
  have h: "bf_m filter_c \<noteq> bf_m filter_a"
    by (simp add: bf_m_def filter_a_def filter_c_def OFFSET_def)
  show ?thesis
    using h comparison_rejects_different_m [OF h, of 2] by simp
qed

subsection \<open>The accumulators of \<open>setbit_jaccard_index\<close>\<close>

definition filter_d :: bfbase_t where
  "filter_d = \<lparr>np = 2, nh = 1, hf = [0], core = [1, 1, 3, 3], seeds = [5], seedseed = 7,
                mask' = 255\<rparr>"

definition filter_e :: bfbase_t where
  "filter_e = \<lparr>np = 2, nh = 1, hf = [0], core = [7, 7, 15, 15], seeds = [5], seedseed = 7,
                mask' = 255\<rparr>"

text \<open>
  C3 at two filters of four words each, two lanes per register. The set bits number 6 in
  \<open>filter_d\<close>, 14 in \<open>filter_e\<close> and 14 in their union, so three independent
  accumulators would end in the division \<open>(6 + 14 - 14) / 14\<close>. The function ends in the
  division \<open>16 / 0\<close>: the first pair of registers is never counted, the union count is
  written into \<open>sum2\<close>, and \<open>sumu\<close> stays 0.
\<close>

theorem setbit_jaccard_index_accumulators:
  "sum_list (map popcount (core filter_d)) = 6 \<and>
   sum_list (map popcount (core filter_e)) = 14 \<and>
   sum_list (map popcount (map2 (OR) (core filter_d) (core filter_e))) = 14 \<and>
   jaccard_sums 2 filter_d filter_e = Inr (8, 8, 0) \<and>
   setbit_jaccard_index 2 filter_d filter_e = Inr (16, 0)"
  by code_simp

subsection \<open>\<open>halve\<close>\<close>

text \<open>
  C2 at a filter of two words (\<open>np = 1\<close>): after \<open>halve\<close> the upper word is folded onto
  the lower one, but the array still has two words and \<open>np\<close> is still 1. The branch for
  \<open>np < 17\<close> returns before the array is cut, and no branch writes \<open>np\<close>.
\<close>

theorem halve_keeps_size_and_np:
  "halve 4 \<lparr>np = 1, nh = 1, hf = [0], core = [1, 2], seeds = [5], seedseed = 7, mask' = 127\<rparr> =
     Inr \<lparr>np = 1, nh = 1, hf = [0], core = [3, 2], seeds = [5], seedseed = 7, mask' = 127\<rparr>"
  by (simp add: halve_def)

subsection \<open>\<open>popcnt\<close> of a filter without storage\<close>

text \<open>
  C9. The constructor called with \<open>l2sz = 6\<close> builds the empty filter: \<open>np = 0\<close> and no
  word storage. \<open>popcnt\<close> reads the first register before it tests any bound, so on a
  filter without storage it reads outside the array instead of returning 0.
\<close>

theorem popcnt_empty_filter:
  "bfbase_t_ctor 4 (\<lambda>s k. s + of_nat k) 0 6 1 137 [0] =
     Some (Inr \<lparr>np = 0, nh = 1, hf = [0], core = [], seeds = [], seedseed = 137, mask' = 0\<rparr>) \<and>
   popcnt 4 \<lparr>np = 0, nh = 1, hf = [0], core = [], seeds = [], seedseed = 137, mask' = 0\<rparr> =
     Inl InvalidAccess"
  by (simp add: bfbase_t_ctor_def OFFSET_def popcnt_def load_def)

subsection \<open>The size limit of the constructor and of \<open>resize\<close>\<close>

lemma roundup_nat_pow2: "roundup_nat (2 ^ k) = 2 ^ k"
proof (induction k)
  case 0
  show ?case by (simp add: roundup_nat.simps [of "Suc 0"])
next
  case (Suc k)
  have "(2 * 2 ^ k + 1) div 2 = (2 ^ k :: nat)" by simp
  moreover have "(1::nat) \<le> 2 ^ k" by simp
  then have "\<not> (2 * 2 ^ k :: nat) \<le> 1" by linarith
  ultimately show ?case
    using Suc by (simp add: roundup_nat.simps [of "2 * 2 ^ k"])
qed

lemma ilog2_nat_pow2: "ilog2_nat (2 ^ k) = k"
proof (induction k)
  case 0
  show ?case by (simp add: ilog2_nat.simps [of "Suc 0"])
next
  case (Suc k)
  have "(1::nat) \<le> 2 ^ k" by simp
  then have "\<not> (2 * 2 ^ k :: nat) < 2" by linarith
  then show ?case
    using Suc by (simp add: ilog2_nat.simps [of "2 * 2 ^ k"])
qed

lemma unat_pow2: "k < 64 \<Longrightarrow> unat (2 ^ k :: u64) = 2 ^ k"
proof -
  assume k: "k < 64"
  have "(2 ^ k :: u64) = of_nat (2 ^ k)" by simp
  then have "unat (2 ^ k :: u64) = 2 ^ k mod 2 ^ 64"
    by (simp only: unat_of_nat) simp
  moreover have "(2::nat) ^ k < 2 ^ 64"
    using k by (simp only: power_strict_increasing_iff)
  ultimately show ?thesis by simp
qed

lemma roundup_pow2: "k < 64 \<Longrightarrow> roundup (2 ^ k) = 2 ^ k"
  by (simp add: roundup_def roundup_nat_pow2 unat_pow2)

lemma ilog2_pow2: "k < 64 \<Longrightarrow> ilog2 (2 ^ k) = k"
  by (simp add: ilog2_def ilog2_nat_pow2 unat_pow2)

lemma clear_memset:
  "MEMSET_CUTOFF \<le> length (core this) \<Longrightarrow>
     clear cnt this = Inr (this\<lparr>core := replicate (length (core this)) 0\<rparr>)"
  by (simp add: clear_def Let_def)

lemma reseed_loop_enough:
  "nhv \<le> length sds * n \<Longrightarrow> reseed_loop gen n nhv k sds = Some sds"
  by (subst reseed_loop.simps) simp

lemma replicate_two_zeros: "replicate 2 (0::u64) = [0, 0]"
  by (simp add: numeral_2_eq_2)

definition empty_filter :: bfbase_t where
  "empty_filter = \<lparr>np = 0, nh = 1, hf = [0], core = [], seeds = [], seedseed = 137, mask' = 0\<rparr>"

text \<open>
  C6. The constructor refuses \<open>l2sz = 47\<close>, which would give \<open>np = 41\<close>. \<open>resize\<close> asked
  for \<open>2 ^ 47\<close> bits does not fail: it returns a filter with \<open>np = 41\<close> and \<open>2 ^ 41\<close> words.
  (The generator is the sequence \<open>seed, seed + 1, ...\<close>; four lanes per register.)
\<close>

theorem resize_beyond_limit_succeeds:
  "bfbase_t_ctor 4 (\<lambda>s k. s + of_nat k) 0 47 1 137 [0] = Some (Inl Oversize) \<and>
   (\<exists>t. resize 4 (\<lambda>s k. s + of_nat k) empty_filter (2 ^ 47) = Some (Inr t) \<and>
        np t = 41 \<and> length (core t) = 2 ^ 41)"
proof -
  let ?F = "\<lparr>np = 0, nh = 1, hf = [0], core = [], seeds = [], seedseed = 137,
             mask' = 0\<rparr> :: bfbase_t"
  have r1: "roundup 140737488355328 = 140737488355328"
    using roundup_pow2 [of 47] by simp
  have r2: "ilog2 140737488355328 = 47"
    using ilog2_pow2 [of 47] by simp
  have a: "clear 4 ?F = Inr ?F"
    by (simp add: clear_def MEMSET_CUTOFF_def)
  have b: "unat (drop_bit 6 (140737488355328 :: u64)) = 2199023255552"
    by (simp add: drop_bit_eq_div)
  have c: "clear 4 (?F\<lparr>core := replicate 2199023255552 0\<rparr>) =
             Inr (?F\<lparr>core := replicate 2199023255552 0\<rparr>)"
    by (subst clear_memset) (simp_all add: MEMSET_CUTOFF_def)
  have d: "reseed_loop (\<lambda>k. 137 + of_nat k) (Suc 0) (Suc 0) 0 [] = Some [137]"
    by (simp add: reseed_loop.simps)
  have ctor: "bfbase_t_ctor 4 (\<lambda>s k. s + of_nat k) 0 47 1 137 [0] = Some (Inl Oversize)"
    by (simp add: bfbase_t_ctor_def OFFSET_def)
  have rsz: "\<exists>t. resize 4 (\<lambda>s k. s + of_nat k) empty_filter (2 ^ 47) = Some (Inr t) \<and>
        np t = 41 \<and> length (core t) = 2 ^ 41"
    using c by (simp add: empty_filter_def resize_def r1 r2 a b vresize_def reseed_def d
        bf_p_def nhashesper64bitword_def OFFSET_def)
  from ctor rsz show ?thesis by blast
qed

subsection \<open>Writing a filter and reading it back\<close>

definition stored_filter :: bfbase_t where
  "stored_filter = \<lparr>np = 1, nh = 1, hf = [0], core = [17, 34], seeds = [99], seedseed = 7,
                     mask' = 127\<rparr>"

definition fresh_filter :: bfbase_t where
  "fresh_filter = \<lparr>np = 0, nh = 0, hf = [0], core = [], seeds = [], seedseed = 0, mask' = 0\<rparr>"

definition stored_bytes :: gzFile where
  "stored_bytes =
     [1, 1, 1, 0, 7, 0, 0, 0, 0, 0, 0, 0, 127, 0, 0, 0, 0, 0, 0, 0,
      99, 0, 0, 0, 0, 0, 0, 0, 17, 0, 0, 0, 0, 0, 0, 0, 34, 0, 0, 0, 0, 0, 0, 0]"

text \<open>
  C1 at a filter with \<open>np = 1\<close>, one seed (99) and the words 17 and 34. \<open>write\<close> emits 44
  bytes, the seed among them. \<open>read\<close> takes only 36 of them: it never reads the seeds,
  so the seed's eight bytes land in the first word of the array and the last word of
  the stream stays unread. Read into a fresh object, the seeds come back as \<open>[0]\<close> and
  the words as \<open>[99, 17]\<close>; read into the very filter that was written, the words still
  come back as \<open>[99, 17]\<close>.
\<close>

theorem read_skips_the_seeds:
  "bf_write stored_filter [] = Inr (stored_bytes, 44) \<and>
   bf_read 4 (\<lambda>s k. s + of_nat k) fresh_filter stored_bytes =
     Some (Inr (\<lparr>np = 1, nh = 1, hf = [0], core = [99, 17], seeds = [0], seedseed = 7,
                  mask' = 127\<rparr>, [34, 0, 0, 0, 0, 0, 0, 0], 36)) \<and>
   bf_read 4 (\<lambda>s k. s + of_nat k) stored_filter stored_bytes =
     Some (Inr (\<lparr>np = 1, nh = 1, hf = [0], core = [99, 17], seeds = [99], seedseed = 7,
                  mask' = 127\<rparr>, [34, 0, 0, 0, 0, 0, 0, 0], 36))"
proof -
  have rs1: "resize 4 (\<lambda>s k. s + of_nat k)
       \<lparr>np = 1, nh = 1, hf = [0], core = [], seeds = [0], seedseed = 7, mask' = 127\<rparr> 128 =
     Some (Inr \<lparr>np = 1, nh = 1, hf = [0], core = [0, 0], seeds = [0], seedseed = 7,
                 mask' = 127\<rparr>)"
    by (simp add: resize_def roundup_pow2 [of 7, simplified] ilog2_pow2 [of 7, simplified]
        clear_def MEMSET_CUTOFF_def vresize_def OFFSET_def drop_bit_eq_div reseed_def bf_p_def
        nhashesper64bitword_def reseed_loop_enough replicate_two_zeros Let_def)
  have rs2: "resize 4 (\<lambda>s k. s + of_nat k)
       \<lparr>np = 1, nh = 1, hf = [0], core = [17, 34], seeds = [99], seedseed = 7,
          mask' = 127\<rparr> 128 =
     Some (Inr \<lparr>np = 1, nh = 1, hf = [0], core = [0, 0], seeds = [99], seedseed = 7,
                 mask' = 127\<rparr>)"
    by (simp add: resize_def roundup_pow2 [of 7, simplified] ilog2_pow2 [of 7, simplified]
        clear_def MEMSET_CUTOFF_def vresize_def OFFSET_def drop_bit_eq_div reseed_def bf_p_def
        nhashesper64bitword_def reseed_loop_enough replicate_two_zeros Let_def)
  have w: "bf_write stored_filter [] = Inr (stored_bytes, 44)"
    by code_simp
  have rd1: "bf_read 4 (\<lambda>s k. s + of_nat k) fresh_filter stored_bytes =
     Some (Inr (\<lparr>np = 1, nh = 1, hf = [0], core = [99, 17], seeds = [0], seedseed = 7,
                  mask' = 127\<rparr>, [34, 0, 0, 0, 0, 0, 0, 0], 36))"
    by (simp add: bf_read_def gzread_def stored_bytes_def fresh_filter_def vresize_def
        bytes_of_u64_def upt_rec u64_of_bytes_def bf_p_def OFFSET_def rs1 bytes_of_words_def
        words_of_bytes.simps Let_def)
  have rd2: "bf_read 4 (\<lambda>s k. s + of_nat k) stored_filter stored_bytes =
     Some (Inr (\<lparr>np = 1, nh = 1, hf = [0], core = [99, 17], seeds = [99], seedseed = 7,
                  mask' = 127\<rparr>, [34, 0, 0, 0, 0, 0, 0, 0], 36))"
    by (simp add: bf_read_def gzread_def stored_bytes_def stored_filter_def vresize_def
        bytes_of_u64_def upt_rec u64_of_bytes_def bf_p_def OFFSET_def rs2 bytes_of_words_def
        words_of_bytes.simps Let_def)
  from w rd1 rd2 show ?thesis
    by (intro conjI)
qed

section \<open>Properties of the LSH index\<close>

subsection \<open>\<open>update\<close>\<close>


lemma sampled_ok:
  "0 < m \<Longrightarrow> length item = m \<Longrightarrow> \<exists>fed'. sampled m item n seed fed = Inr fed'"
  by (induction n arbitrary: seed fed) (auto simp: Let_def Schismatic_mod_def split: prod.splits)


lemma hash_index_ok:
  assumes wf: "wf_index this" and len: "length item = ssi_m this"
    and i: "i < length (packed_maps this)" and j: "j < length (packed_maps this ! i)"
  shows "\<exists>k. hash_index XXH3 XXH64 this item i j = Inr k"
proof -
  let ?nreg = "unat (regs_per_reg this ! i)"
  from wf have m: "0 < ssi_m this" and regs: "i < length (regs_per_reg this)"
    using i by (simp_all add: wf_index_def)
  from wf i have "length (packed_maps this ! i) * ?nreg < 2 ^ 64"
    by (simp add: wf_index_def list_all_iff)
  moreover from j have "(j + 1) * ?nreg \<le> length (packed_maps this ! i) * ?nreg"
    by (intro mult_le_mono1) simp
  ultimately have small: "(j + 1) * ?nreg < 2 ^ 64"
    by linarith
  then have small': "?nreg * j < 2 ^ 64"
    by (simp add: algebra_simps) 
  show ?thesis
  proof (cases "?nreg \<ge> 4 \<and> (j + 1) * ?nreg mod 2 ^ 64 \<le> ssi_m this")
    case True
    with small have "(j + 1) * ?nreg \<le> ssi_m this"
      by simp
    then have "?nreg * j + ?nreg \<le> length item"
      using len by (simp add: algebra_simps)
    with True regs small' show ?thesis
      by (simp add: hash_index_def Let_def)
  next
    case False
    obtain fed where "sampled (ssi_m this) item ?nreg (push_bit 32 (of_nat i) OR of_nat j) [] = Inr fed"
      using sampled_ok [OF m len] by blast
    with False regs show ?thesis
      by (auto simp add: hash_index_def Let_def)
  qed
qed







text \<open>
  The index that \<^verbatim>\<open>SetSketchIndex(4)\<close> builds: tables with 1, 2 and 4 registers per key
  and 4, 2 and 1 rows. The two digests are stand-ins.
\<close>

definition lsh4 :: SetSketchIndex where
  "lsh4 = \<lparr>ssi_m = 4,
            packed_maps = [replicate 4 Map.empty, replicate 2 Map.empty, [Map.empty]],
            regs_per_reg = [1, 2, 4], total_ids = 0\<rparr>"

lemma wf_lsh4: "wf_index lsh4"
  by (simp add: wf_index_def lsh4_def upt_rec)


subsection \<open>\<open>query_candidates\<close>\<close>

lemma map_fst_bump:
  "map (fst \<circ> (\<lambda>(k, v). if k = x then (k, v + 1) else (k, v))) xs = map fst xs"
  by (induction xs) auto

lemma hit_id_effect:
  assumes "qinv s"
  shows "qinv (hit_id s x) \<and> items_per_row (hit_id s x) = items_per_row s \<and>
         (\<exists>new. passing_ids (hit_id s x) = passing_ids s @ new \<and>
                set new = {x} - set (passing_ids s))"
proof (cases "map_of (rset s) x")
  case None
  then have "x \<notin> fst ` set (rset s)"
    by (simp add: map_of_eq_None_iff)
  then have "x \<notin> set (passing_ids s)"
    using assms by (metis qinv_def set_map)
  with None assms show ?thesis
    by (auto simp add: hit_id_def qinv_def)
next
  case (Some c)
  then have "x \<in> fst ` set (rset s)"
    by (metis map_of_eq_None_iff option.distinct(1))
  then have "x \<in> set (passing_ids s)"
    using assms by (metis qinv_def set_map)
  with Some assms show ?thesis
    by (auto simp add: hit_id_def qinv_def map_fst_bump)
qed

lemma fold_hit_id_effect:
  assumes "qinv s"
  shows "qinv (fold (\<lambda>ident s'. hit_id s' ident) ids s) \<and>
         items_per_row (fold (\<lambda>ident s'. hit_id s' ident) ids s) = items_per_row s \<and>
         (\<exists>new. passing_ids (fold (\<lambda>ident s'. hit_id s' ident) ids s) = passing_ids s @ new \<and>
                set new = set ids - set (passing_ids s))"
  using assms
proof (induction ids arbitrary: s)
  case Nil
  then show ?case by simp
next
  case (Cons x xs)
  from hit_id_effect [OF Cons.prems, of x] obtain n1 where
    h: "qinv (hit_id s x)" "items_per_row (hit_id s x) = items_per_row s"
       "passing_ids (hit_id s x) = passing_ids s @ n1" "set n1 = {x} - set (passing_ids s)"
    by blast
  from Cons.IH [OF h(1)] obtain n2 where
    f: "qinv (fold (\<lambda>ident s'. hit_id s' ident) xs (hit_id s x))"
       "items_per_row (fold (\<lambda>ident s'. hit_id s' ident) xs (hit_id s x)) = items_per_row (hit_id s x)"
       "passing_ids (fold (\<lambda>ident s'. hit_id s' ident) xs (hit_id s x)) = passing_ids (hit_id s x) @ n2"
       "set n2 = set xs - set (passing_ids (hit_id s x))"
    by blast
  have "passing_ids (fold (\<lambda>ident s'. hit_id s' ident) (x # xs) s) = passing_ids s @ (n1 @ n2)"
    using f(3) h(3) by simp
  moreover have "set (n1 @ n2) = set (x # xs) - set (passing_ids s)"
    using f(4) h(3,4) by auto
  ultimately show ?case
    using f(1,2) h(2) by (metis fold_simps(2))
qed

lemma query_rows_effect:
  assumes "\<forall>j\<in>set js. \<exists>k. h j = Inr k" and "qinv s"
  shows "\<exists>s' new. query_rows h m js s = Inr s' \<and> qinv s' \<and>
           items_per_row s' = items_per_row s \<and>
           passing_ids s' = passing_ids s @ new \<and>
           set new = (\<Union>j\<in>set js. set (row_hits h m j)) - set (passing_ids s)"
  using assms
proof (induction js arbitrary: s)
  case Nil
  then show ?case by simp
next
  case (Cons j js)
  then obtain k where k: "h j = Inr k"
    by auto
  define s1 where "s1 = (case (m ! j) k of None \<Rightarrow> s
                         | Some ids \<Rightarrow> fold (\<lambda>ident s'. hit_id s' ident) ids s)"
  have step: "query_rows h m (j # js) s = query_rows h m js s1"
    using k by (simp add: s1_def split: option.splits)
  have "qinv s1 \<and> items_per_row s1 = items_per_row s \<and>
         (\<exists>new. passing_ids s1 = passing_ids s @ new \<and>
                set new = set (row_hits h m j) - set (passing_ids s))"
  proof (cases "(m ! j) k")
    case None
    with k Cons.prems(2) show ?thesis
      by (simp add: s1_def row_hits_def)
  next
    case (Some ids)
    with k fold_hit_id_effect [OF Cons.prems(2), of ids] show ?thesis
      by (simp add: s1_def row_hits_def)
  qed
  then obtain n1 where
    a: "qinv s1" "items_per_row s1 = items_per_row s" "passing_ids s1 = passing_ids s @ n1"
       "set n1 = set (row_hits h m j) - set (passing_ids s)"
    by blast
  have "\<forall>j\<in>set js. \<exists>k. h j = Inr k"
    using Cons.prems(1) by simp
  from Cons.IH [OF this a(1)] obtain s' n2 where
    b: "query_rows h m js s1 = Inr s'" "qinv s'" "items_per_row s' = items_per_row s1"
       "passing_ids s' = passing_ids s1 @ n2"
       "set n2 = (\<Union>j\<in>set js. set (row_hits h m j)) - set (passing_ids s1)"
    by blast
  have c: "passing_ids s' = passing_ids s @ (n1 @ n2)"
    using a(3) b(4) by simp
  have d: "set (n1 @ n2) = (\<Union>j\<in>set (j # js). set (row_hits h m j)) - set (passing_ids s)"
    using a(3,4) b(5) by auto
  have e: "query_rows h m (j # js) s = Inr s'"
    using step b(1) by simp
  have f: "items_per_row s' = items_per_row s"
    using a(2) b(3) by simp
  from e b(2) f c d show ?case
    by blast
qed

lemma scan_table_effect:
  assumes "\<forall>j<length m. \<exists>k. h j = Inr k" and "qinv s"
  shows "\<exists>s' new. query_rows h m [0..<length m] s = Inr s' \<and> qinv s' \<and>
           items_per_row s' = items_per_row s \<and>
           passing_ids s' = passing_ids s @ new \<and>
           set new = set (table_hits h m) - set (passing_ids s)"
proof -
  have "\<forall>j\<in>set [0..<length m]. \<exists>k. h j = Inr k"
    using assms(1) by simp
  from query_rows_effect [OF this assms(2), of m] show ?thesis
    by (simp add: table_hits_def)
qed


lemma qinv_length: "qinv s \<Longrightarrow> length (rset s) = length (passing_ids s)"
  unfolding qinv_def by (metis length_map)

lemma UN_lessThan_Suc_shift:
  "(\<Union>k'<Suc k. f k') = f 0 \<union> (\<Union>k'<k. f (Suc k'))"
  by (auto simp: less_Suc_eq_0_disj)

lemma query_tables_effect:
  assumes "qinv s" and "n \<le> length maps"
    and "\<forall>i<n. \<forall>j<length (maps ! i). \<exists>k. h i j = Inr k"
  shows "\<exists>s' segs. query_tables h maps maxcand n s = Inr s' \<and> qinv s' \<and>
           passing_ids s' = passing_ids s @ concat segs \<and>
           items_per_row s' = items_per_row s @ map (\<lambda>seg. of_nat (length seg)) segs \<and>
           length segs \<le> n \<and> (0 < n \<longrightarrow> segs \<noteq> []) \<and>
           (length segs < n \<longrightarrow> maxcand \<le> length (passing_ids s')) \<and>
           (\<forall>k<length segs.
              set (segs ! k) =
                set (table_hits (h (n - 1 - k)) (maps ! (n - 1 - k))) -
                (set (passing_ids s) \<union>
                 (\<Union>k'<k. set (table_hits (h (n - 1 - k')) (maps ! (n - 1 - k'))))))"
  using assms
proof (induction n arbitrary: s)
  case 0
  have "query_tables h maps maxcand 0 s = Inr s \<and> qinv s \<and>
           passing_ids s = passing_ids s @ concat [] \<and>
           items_per_row s = items_per_row s @ map (\<lambda>seg. of_nat (length seg)) []"
    using "0.prems"(1) by simp
  then show ?case
    by (intro exI [of _ s] exI [of _ "[]"]) simp
next
  case (Suc n)
  let ?H = "\<lambda>i. set (table_hits (h i) (maps ! i))"
  have n: "n < length maps"
    using Suc.prems(2) by simp
  have "\<forall>j<length (maps ! n). \<exists>k. h n j = Inr k"
    using Suc.prems(3) by simp
  from scan_table_effect [OF this Suc.prems(1)] obtain s1 new where
    s1: "query_rows (h n) (maps ! n) [0..<length (maps ! n)] s = Inr s1" "qinv s1"
        "items_per_row s1 = items_per_row s" "passing_ids s1 = passing_ids s @ new"
        "set new = ?H n - set (passing_ids s)"
    by blast
  define s2 where
    "s2 = s1\<lparr>items_per_row :=
               items_per_row s1 @ [of_nat (length (passing_ids s1) - length (passing_ids s))]\<rparr>"
  have s2: "qinv s2" "passing_ids s2 = passing_ids s @ new"
    "items_per_row s2 = items_per_row s @ [of_nat (length new)]"
    using s1 by (simp_all add: s2_def qinv_def)
  have s2_len: "length (rset s2) = length (passing_ids s2)"
    using s2(1) by (rule qinv_length)
  have step: "query_tables h maps maxcand (Suc n) s =
                (if maxcand \<le> length (rset s2) then Inr s2
                 else query_tables h maps maxcand n s2)"
    using n s1(1) by (simp add: s2_def Let_def)
  show ?case
  proof (cases "maxcand \<le> length (rset s2)")
    case True
    have "query_tables h maps maxcand (Suc n) s = Inr s2"
      using step True by simp
    moreover have "passing_ids s2 = passing_ids s @ concat [new]"
      using s2(2) by simp
    moreover have "items_per_row s2 = items_per_row s @ map (\<lambda>seg. of_nat (length seg)) [new]"
      using s2(3) by simp
    moreover have "maxcand \<le> length (passing_ids s2)"
      using True s2_len by simp
    moreover have "\<forall>k<length [new].
              set ([new] ! k) = ?H (Suc n - 1 - k) -
                (set (passing_ids s) \<union> (\<Union>k'<k. ?H (Suc n - 1 - k')))"
      using s1(5) by simp
    ultimately show ?thesis
      using s2(1) by (intro exI [of _ s2] exI [of _ "[new]"]) simp
  next
    case False
    have pre: "n \<le> length maps" "\<forall>i<n. \<forall>j<length (maps ! i). \<exists>k. h i j = Inr k"
      using Suc.prems by simp_all
    from Suc.IH [OF s2(1) pre] obtain s' segs where
      ih: "query_tables h maps maxcand n s2 = Inr s'" "qinv s'"
          "passing_ids s' = passing_ids s2 @ concat segs"
          "items_per_row s' = items_per_row s2 @ map (\<lambda>seg. of_nat (length seg)) segs"
          "length segs \<le> n" "0 < n \<longrightarrow> segs \<noteq> []"
          "length segs < n \<longrightarrow> maxcand \<le> length (passing_ids s')"
          "\<forall>k<length segs. set (segs ! k) = ?H (n - 1 - k) -
                (set (passing_ids s2) \<union> (\<Union>k'<k. ?H (n - 1 - k')))"
      by blast
    have a: "query_tables h maps maxcand (Suc n) s = Inr s'"
      using step False ih(1) by simp
    have b: "passing_ids s' = passing_ids s @ concat (new # segs)"
      using ih(3) s2(2) by simp
    have c: "items_per_row s' = items_per_row s @ map (\<lambda>seg. of_nat (length seg)) (new # segs)"
      using ih(4) s2(3) by simp
    have d: "length (new # segs) \<le> Suc n" "length (new # segs) < Suc n \<longrightarrow>
               maxcand \<le> length (passing_ids s')"
      using ih(5,7) by simp_all
    have seen: "set (passing_ids s2) = set (passing_ids s) \<union> ?H n"
      using s2(2) s1(5) by auto
    have e: "\<forall>k<length (new # segs).
              set ((new # segs) ! k) = ?H (Suc n - 1 - k) -
                (set (passing_ids s) \<union> (\<Union>k'<k. ?H (Suc n - 1 - k')))"
    proof (intro allI impI)
      fix k assume k: "k < length (new # segs)"
      show "set ((new # segs) ! k) = ?H (Suc n - 1 - k) -
                (set (passing_ids s) \<union> (\<Union>k'<k. ?H (Suc n - 1 - k')))"
      proof (cases k)
        case 0
        then show ?thesis using s1(5) by simp
      next
        case (Suc k0)
        then have k0: "k0 < length segs"
          using k by simp
        have "set (segs ! k0) = ?H (n - 1 - k0) -
                (set (passing_ids s2) \<union> (\<Union>k'<k0. ?H (n - 1 - k')))"
          using ih(8) k0 by blast
        moreover have "(\<Union>k'<Suc k0. ?H (Suc n - 1 - k')) = ?H n \<union> (\<Union>k'<k0. ?H (n - 1 - k'))"
          by (subst UN_lessThan_Suc_shift) simp
        ultimately show ?thesis
          using Suc seen by (simp add: Un_assoc)
      qed
    qed
    from a ih(2) b c d e show ?thesis
      by (intro exI [of _ s'] exI [of _ "new # segs"]) simp
  qed
qed


lemma nat_sint_small:
  fixes x :: u64
  assumes "unat x < 2 ^ 63"
  shows "nat (sint x) = unat x"
proof -
  have 1: "int (unat x) < int (2 ^ 63)"
    using assms by (simp only: of_nat_less_iff)
  have 2: "uint x < int (2 ^ 63)"
    unfolding uint_nat by (rule 1)
  have 3: "int (2 ^ 63) = (2 ^ 63 :: int)"
    by simp
  have "uint x < 2 ^ 63"
    using 2 unfolding 3 .
  moreover have "- (2 ^ 63) \<le> uint x"
    by (rule order_trans [of _ 0]) simp_all
  ultimately have "signed_take_bit 63 (uint x) = uint x"
    by (intro signed_take_bit_int_eq_self) simp_all
  then have "sint x = uint x"
    by (simp only: sint_uint) simp
  then show ?thesis
    by (simp only: unat_eq_nat_uint)
qed

lemma unat_of_nat64: "n < 2 ^ 64 \<Longrightarrow> unat (of_nat n :: u64) = n"
  by (simp add: unat_of_nat)

lemma unat_of_nat32: "n < 2 ^ 32 \<Longrightarrow> unat (of_nat n :: u32) = n"
  by (simp add: unat_of_nat)

lemma sum_list_of_nat_length:
  "sum_list (map (\<lambda>seg. of_nat (length seg)) segs) = (of_nat (length (concat segs)) :: u32)"
  by (induction segs) simp_all

lemma sum_list_unat_length:
  "length (concat segs) < 2 ^ 32 \<Longrightarrow>
     sum_list (map unat (map (\<lambda>seg. of_nat (length seg) :: u32) segs)) = length (concat segs)"
proof (induction segs)
  case Nil
  then show ?case by simp
next
  case (Cons seg segs)
  then have "length seg < 2 ^ 32" "length (concat segs) < 2 ^ 32"
    by simp_all
  with Cons.IH show ?case
    by (simp add: unat_of_nat32)
qed

lemma length_nth_le_concat: "k < length segs \<Longrightarrow> length (segs ! k) \<le> length (concat segs)"
proof (induction segs arbitrary: k)
  case Nil
  then show ?case by simp
next
  case (Cons seg segs)
  then show ?case
    by (cases k) (simp_all add: trans_le_add2)
qed

lemma distinct_nth_concat: "distinct (concat segs) \<Longrightarrow> k < length segs \<Longrightarrow> distinct (segs ! k)"
  by (simp add: distinct_concat_iff)


lemma UN_diff_earlier:
  "(\<Union>k<n. f k - (\<Union>k'<k. f k')) = (\<Union>k<(n::nat). f k)"
proof (induction n)
  case 0
  show ?case by simp
next
  case (Suc n)
  have "(\<Union>k<Suc n. f k - (\<Union>k'<k. f k')) =
          (\<Union>k<n. f k - (\<Union>k'<k. f k')) \<union> (f n - (\<Union>k'<n. f k'))"
    by (simp add: lessThan_Suc Un_commute)
  also have "\<dots> = (\<Union>k<n. f k) \<union> (f n - (\<Union>k'<n. f k'))"
    using Suc by simp
  also have "\<dots> = (\<Union>k<Suc n. f k)"
    by (auto simp: lessThan_Suc)
  finally show ?case .
qed

lemma set_concat_nth: "set (concat segs) = (\<Union>k<length segs. set (segs ! k))"
proof (induction segs rule: rev_induct)
  case Nil
  show ?case by simp
next
  case (snoc seg segs)
  have "(\<Union>k<length segs. set ((segs @ [seg]) ! k)) = (\<Union>k<length segs. set (segs ! k))"
    by (simp add: nth_append)
  with snoc show ?case
    by (simp add: lessThan_Suc Un_commute)
qed

text \<open>
  C8. On an index of the shape above, for a sketch of length \<open>m\<close> and a start index that
  is the default or at most the number of tables, \<open>query_candidates\<close> returns a pair
  \<open>(ids, counts)\<close>. No id occurs twice in \<open>ids\<close>. \<open>counts\<close> has one entry for each table
  scanned, in the order of the scan: its \<open>k\<close>-th entry belongs to table \<open>start - 1 - k\<close>
  and is the number of ids that this table's scan meets and no earlier scanned table
  met (\<open>hits k\<close> is the set of ids met in that table). There is at least one entry
  when \<open>start > 0\<close>, and fewer than \<open>start\<close> entries only when \<open>max_candidates\<close> ids
  were reached. The ids are exactly those met in the scanned tables, and the entries
  add up to the length of \<open>ids\<close>. The entries are 32-bit counts: the equalities hold
  in 32-bit arithmetic, and as equalities of natural numbers when fewer than \<open>2 ^ 32\<close>
  ids are returned.
\<close>

theorem query_candidates_counts:
  assumes wf: "wf_index this" and len: "length item = ssi_m this"
    and start: "starting_idx = - 1 \<or> unat starting_idx \<le> length (packed_maps this)"
  shows "let start = (if starting_idx = - 1 then length (packed_maps this) else unat starting_idx);
             hits = (\<lambda>k. set (table_hits (hash_index XXH3 XXH64 this item (start - 1 - k))
                                  (packed_maps this ! (start - 1 - k))))
         in \<exists>ids counts.
              query_candidates XXH3 XXH64 this item maxcand starting_idx = Inr (ids, counts) \<and>
              distinct ids \<and>
              length counts \<le> start \<and> (0 < start \<longrightarrow> counts \<noteq> []) \<and>
              (length counts < start \<longrightarrow> maxcand \<le> length ids) \<and>
              set ids = (\<Union>k<length counts. hits k) \<and>
              sum_list counts = of_nat (length ids) \<and>
              (\<forall>k<length counts. counts ! k = of_nat (card (hits k - (\<Union>k'<k. hits k')))) \<and>
              (length ids < 2 ^ 32 \<longrightarrow>
                 sum_list (map unat counts) = length ids \<and>
                 (\<forall>k<length counts. unat (counts ! k) = card (hits k - (\<Union>k'<k. hits k'))))"
proof -
  define n where "n = (if starting_idx = - 1 then length (packed_maps this) else unat starting_idx)"
  define hits where "hits = (\<lambda>k. set (table_hits (hash_index XXH3 XXH64 this item (n - 1 - k))
                                  (packed_maps this ! (n - 1 - k))))"
  let ?h = "hash_index XXH3 XXH64 this item"
  let ?s0 = "\<lparr>rset = [], passing_ids = [], items_per_row = []\<rparr>"
  have tables: "length (packed_maps this) < 2 ^ 63"
    and regs: "length (regs_per_reg this) = length (packed_maps this)"
    using wf by (simp_all add: wf_index_def)
  have n_le: "n \<le> length (packed_maps this)"
    using start by (auto simp: n_def)
  have conv: "nat (sint (if starting_idx = - 1 then of_nat (length (regs_per_reg this))
                         else starting_idx)) = n"
  proof (cases "starting_idx = - 1")
    case True
    have "length (packed_maps this) < 2 ^ 64"
      using tables by (rule less_trans) simp
    then have "unat (of_nat (length (packed_maps this)) :: u64) = length (packed_maps this)"
      by (rule unat_of_nat64)
    with tables have "unat (of_nat (length (packed_maps this)) :: u64) < 2 ^ 63"
      by simp
    from nat_sint_small [OF this] True regs show ?thesis
      by (simp add: n_def \<open>unat (of_nat (length (packed_maps this)) :: u64) = length (packed_maps this)\<close>)
  next
    case False
    with start have "unat starting_idx \<le> length (packed_maps this)"
      by simp
    then have "unat starting_idx < 2 ^ 63"
      using tables by (rule le_less_trans)
    from nat_sint_small [OF this] False show ?thesis
      by (simp add: n_def)
  qed
  have ok: "\<forall>i<n. \<forall>j<length (packed_maps this ! i). \<exists>k. ?h i j = Inr k"
    using hash_index_ok [OF wf len] n_le by (meson less_le_trans)
  have "qinv ?s0"
    by (simp add: qinv_def)
  from query_tables_effect [OF this n_le ok, of maxcand] obtain s' segs where
    r: "query_tables ?h (packed_maps this) maxcand n ?s0 = Inr s'" "qinv s'"
       "passing_ids s' = concat segs"
       "items_per_row s' = map (\<lambda>seg. of_nat (length seg)) segs"
       "length segs \<le> n" "0 < n \<longrightarrow> segs \<noteq> []"
       "length segs < n \<longrightarrow> maxcand \<le> length (passing_ids s')"
       "\<forall>k<length segs. set (segs ! k) = hits k - (\<Union>k'<k. hits k')"
    unfolding hits_def by auto
  let ?ids = "concat segs"
  let ?counts = "map (\<lambda>seg. of_nat (length seg)) segs :: u32 list"
  have run: "query_candidates XXH3 XXH64 this item maxcand starting_idx = Inr (?ids, ?counts)"
    using r(1,3,4) conv by (simp add: query_candidates_def Let_def)
  have dist: "distinct ?ids"
    using r(2,3) by (simp add: qinv_def)
  have card_seg: "\<forall>k<length segs. length (segs ! k) = card (hits k - (\<Union>k'<k. hits k'))"
  proof (intro allI impI)
    fix k assume k: "k < length segs"
    have "distinct (segs ! k)"
      using dist k by (rule distinct_nth_concat)
    then have "card (set (segs ! k)) = length (segs ! k)"
      by (rule distinct_card)
    with r(8) k show "length (segs ! k) = card (hits k - (\<Union>k'<k. hits k'))"
      by simp
  qed
  have sets: "set ?ids = (\<Union>k<length ?counts. hits k)"
  proof -
    have "set ?ids = (\<Union>k<length segs. set (segs ! k))"
      by (rule set_concat_nth)
    also have "\<dots> = (\<Union>k<length segs. hits k - (\<Union>k'<k. hits k'))"
      using r(8) by (intro SUP_cong refl) simp
    also have "\<dots> = (\<Union>k<length segs. hits k)"
      by (rule UN_diff_earlier)
    finally show ?thesis
      by simp
  qed
  have total: "sum_list ?counts = of_nat (length ?ids)"
    by (rule sum_list_of_nat_length)
  have each: "\<forall>k<length ?counts. ?counts ! k = of_nat (card (hits k - (\<Union>k'<k. hits k')))"
    using card_seg by simp
  have exact: "length ?ids < 2 ^ 32 \<longrightarrow>
                 sum_list (map unat ?counts) = length ?ids \<and>
                 (\<forall>k<length ?counts. unat (?counts ! k) = card (hits k - (\<Union>k'<k. hits k')))"
  proof
    assume small: "length ?ids < 2 ^ 32"
    have "\<forall>k<length ?counts. unat (?counts ! k) = card (hits k - (\<Union>k'<k. hits k'))"
    proof (intro allI impI)
      fix k assume k: "k < length ?counts"
      then have k': "k < length segs" by simp
      have "length (segs ! k) < 2 ^ 32"
        using length_nth_le_concat [OF k'] small by (rule le_less_trans)
      then have "unat (of_nat (length (segs ! k)) :: u32) = length (segs ! k)"
        by (rule unat_of_nat32)
      with card_seg k' show "unat (?counts ! k) = card (hits k - (\<Union>k'<k. hits k'))"
        by simp
    qed
    with sum_list_unat_length [OF small]
    show "sum_list (map unat ?counts) = length ?ids \<and>
          (\<forall>k<length ?counts. unat (?counts ! k) = card (hits k - (\<Union>k'<k. hits k')))"
      by blast
  qed
  have bounds: "length ?counts \<le> n" "0 < n \<longrightarrow> ?counts \<noteq> []"
    "length ?counts < n \<longrightarrow> maxcand \<le> length ?ids"
    using r(3,5,6,7) by simp_all
  have "\<exists>ids counts.
              query_candidates XXH3 XXH64 this item maxcand starting_idx = Inr (ids, counts) \<and>
              distinct ids \<and>
              length counts \<le> n \<and> (0 < n \<longrightarrow> counts \<noteq> []) \<and>
              (length counts < n \<longrightarrow> maxcand \<le> length ids) \<and>
              set ids = (\<Union>k<length counts. hits k) \<and>
              sum_list counts = of_nat (length ids) \<and>
              (\<forall>k<length counts. counts ! k = of_nat (card (hits k - (\<Union>k'<k. hits k')))) \<and>
              (length ids < 2 ^ 32 \<longrightarrow>
                 sum_list (map unat counts) = length ids \<and>
                 (\<forall>k<length counts. unat (counts ! k) = card (hits k - (\<Union>k'<k. hits k'))))"
    using run dist bounds sets total each exact
    by (intro exI [of _ ?ids] exI [of _ ?counts] conjI)
  then show ?thesis
    unfolding Let_def n_def hits_def .
qed

text \<open>
  An index over sketches of length 4 that holds four ids. With the stand-in digests,
  the band key of table 2 is 4, and the keys of the rows \<open>j\<close> of tables 1 and 0 are
  \<open>2 ^ 32 + j\<close> and \<open>j\<close>.
\<close>

definition lsh4_filled :: SetSketchIndex where
  "lsh4_filled = \<lparr>ssi_m = 4,
      packed_maps = [[[0 \<mapsto> [0, 2, 3]], Map.empty, Map.empty, Map.empty],
                     [[4294967296 \<mapsto> [1, 2]], Map.empty],
                     [[4 \<mapsto> [0, 1]]]],
      regs_per_reg = [1, 2, 4], total_ids = 4\<rparr>"

lemma lsh4_filled_key_table2: "hash_index (\<lambda>rs. of_nat (length rs)) (\<lambda>seed rs. seed) lsh4_filled [1, 2, 3, 4 :: u8] 2 0 = Inr 4"
  by (simp add: hash_index_def lsh4_filled_def)

lemma lsh4_filled_key_sampled: "i < 2 \<Longrightarrow> hash_index (\<lambda>rs. of_nat (length rs)) (\<lambda>seed rs. seed) lsh4_filled [1, 2, 3, 4 :: u8] i j
   = Inr (push_bit 32 (of_nat i) OR of_nat j)"
proof -
  assume i: "i < 2"
  then have r: "unat (regs_per_reg lsh4_filled ! i) < 4" "i < length (regs_per_reg lsh4_filled)"
    by (auto simp: lsh4_filled_def less_2_cases_iff)
  have "\<exists>fed. sampled (ssi_m lsh4_filled) [1, 2, 3, 4 :: u8] (unat (regs_per_reg lsh4_filled ! i))
      (push_bit 32 (of_nat i) OR of_nat j) [] = Inr fed"
    by (rule sampled_ok) (simp_all add: lsh4_filled_def)
  then obtain fed where "sampled (ssi_m lsh4_filled) [1, 2, 3, 4 :: u8] (unat (regs_per_reg lsh4_filled ! i))
      (push_bit 32 (of_nat i) OR of_nat j) [] = Inr fed"
    by blast
  with r show ?thesis
    by (simp add: hash_index_def Let_def)
qed

lemma upt_2_4: "[0..<2] = [0, Suc 0]" "[0..<4] = [0, Suc 0, Suc (Suc 0), Suc (Suc (Suc 0))]"
  by (simp_all add: upt_rec)

lemma lsh4_filled_query: "query_candidates (\<lambda>rs. of_nat (length rs)) (\<lambda>seed rs. seed) lsh4_filled [1, 2, 3, 4 :: u8] 10 (- 1)
   = Inr ([0, 1, 2, 3], [2, 1, 1])"
proof -
  let ?h = "hash_index (\<lambda>rs. of_nat (length rs)) (\<lambda>seed rs. seed) lsh4_filled [1, 2, 3, 4 :: u8]"
  let ?maps = "[[[0 \<mapsto> [0, 2, 3]], Map.empty, Map.empty, Map.empty],
                     [[4294967296 \<mapsto> [1, 2]], Map.empty],
                     [[4 \<mapsto> [0, 1]]]] :: HashV list"
  let ?s0 = "\<lparr>rset = [], passing_ids = [], items_per_row = []\<rparr>"
  let ?s1 = "\<lparr>rset = [(0, 1), (1, 1)], passing_ids = [0, 1], items_per_row = []\<rparr>"
  let ?s1' = "\<lparr>rset = [(0, 1), (1, 1)], passing_ids = [0, 1], items_per_row = [2]\<rparr>"
  let ?s2 = "\<lparr>rset = [(0, 1), (1, 2), (2, 1)], passing_ids = [0, 1, 2], items_per_row = [2]\<rparr>"
  let ?s2' = "\<lparr>rset = [(0, 1), (1, 2), (2, 1)], passing_ids = [0, 1, 2], items_per_row = [2, 1]\<rparr>"
  let ?s3 = "\<lparr>rset = [(0, 2), (1, 2), (2, 2), (3, 1)], passing_ids = [0, 1, 2, 3],
               items_per_row = [2, 1]\<rparr>"
  let ?s3' = "\<lparr>rset = [(0, 2), (1, 2), (2, 2), (3, 1)], passing_ids = [0, 1, 2, 3],
               items_per_row = [2, 1, 1]\<rparr>"
  have pm: "packed_maps lsh4_filled = ?maps" "length (regs_per_reg lsh4_filled) = 3"
    by (simp_all add: lsh4_filled_def)
  have r2: "query_rows (?h (Suc (Suc 0))) (?maps ! Suc (Suc 0)) [0..<length (?maps ! Suc (Suc 0))] ?s0 = Inr ?s1"
    by (simp add: lsh4_filled_key_table2 [simplified numeral_2_eq_2] hit_id_def)
  have r1: "query_rows (?h (Suc 0)) (?maps ! Suc 0) [0..<length (?maps ! Suc 0)] ?s1' = Inr ?s2"
    by (simp add: lsh4_filled_key_sampled hit_id_def upt_2_4)
  have r0: "query_rows (?h 0) (?maps ! 0) [0..<length (?maps ! 0)] ?s2' = Inr ?s3"
    by (simp add: lsh4_filled_key_sampled hit_id_def upt_2_4)
  have t0: "query_tables ?h ?maps 10 (Suc 0) ?s2' = Inr ?s3'"
    by (subst query_tables.simps(2), simp only: r0 Let_def) simp
  have t1: "query_tables ?h ?maps 10 (Suc (Suc 0)) ?s1' = Inr ?s3'"
    by (subst query_tables.simps(2), simp only: r1 Let_def) (simp add: t0 del: query_tables.simps)
  have t2: "query_tables ?h ?maps 10 (Suc (Suc (Suc 0))) ?s0 = Inr ?s3'"
    by (subst query_tables.simps(2), simp only: r2 Let_def) (simp add: t1 del: query_tables.simps)
  have t3: "query_tables ?h ?maps 10 3 ?s0 = Inr ?s3'"
    using t2 by (simp only: numeral_3_eq_3)
  show ?thesis
    by (simp add: query_candidates_def pm t3)
qed

theorem query_candidates_counts_witness:
  "wf_index lsh4_filled \<and> length [1, 2, 3, 4 :: u8] = ssi_m lsh4_filled \<and>
   query_candidates (\<lambda>rs. of_nat (length rs)) (\<lambda>seed rs. seed) lsh4_filled
     [1, 2, 3, 4 :: u8] 10 (- 1) = Inr ([0, 1, 2, 3], [2, 1, 1]) \<and>
   (\<exists>ids counts.
      query_candidates (\<lambda>rs. of_nat (length rs)) (\<lambda>seed rs. seed) lsh4_filled
        [1, 2, 3, 4 :: u8] 10 (- 1) = Inr (ids, counts) \<and>
      distinct ids \<and> length counts \<le> 3 \<and> sum_list counts = of_nat (length ids) \<and>
      (length ids < 2 ^ 32 \<longrightarrow> sum_list (map unat counts) = length ids))"
proof -
  have a: "wf_index lsh4_filled"
    by (simp add: wf_index_def lsh4_filled_def upt_rec)
  have b: "length [1, 2, 3, 4 :: u8] = ssi_m lsh4_filled"
    by (simp add: lsh4_filled_def)
  have c: "(- 1 :: u64) = - 1 \<or> unat (- 1 :: u64) \<le> length (packed_maps lsh4_filled)"
    by simp
  have n: "length (packed_maps lsh4_filled) = 3"
    by (simp add: lsh4_filled_def)
  note inst = query_candidates_counts [OF a b c, of "\<lambda>rs. of_nat (length rs)" "\<lambda>seed rs. seed" 10,
        unfolded Let_def n simp_thms if_True]
  have e: "\<exists>ids counts.
      query_candidates (\<lambda>rs. of_nat (length rs)) (\<lambda>seed rs. seed) lsh4_filled
        [1, 2, 3, 4 :: u8] 10 (- 1) = Inr (ids, counts) \<and>
      distinct ids \<and> length counts \<le> 3 \<and> sum_list counts = of_nat (length ids) \<and>
      (length ids < 2 ^ 32 \<longrightarrow> sum_list (map unat counts) = length ids)"
    using inst
    apply (elim exE conjE)
    subgoal for ids counts
      apply (rule exI [of _ ids], rule exI [of _ counts])
      apply (intro conjI impI)
          apply assumption
         apply assumption
        apply assumption
       apply assumption
      apply (erule (1) impE [where P = "length ids < 2 ^ 32"], erule conjE, assumption)
      done
    done
  from a b lsh4_filled_query e show ?thesis
    by (intro conjI)
qed

end
